theory Spec2Isabelle
  imports Main "HOL-Library.Word"
begin

unbundle bit_operations_syntax

section \<open>Machine types and compile-time constants of ds\_init\_main.c\<close>

type_synonym u8 = "8 word"
type_synonym u32 = "32 word"
type_synonym u64 = "64 word"

text \<open>
  How a part of the program ends. \<open>Ok x\<close>: it goes on with \<open>x\<close>. \<open>Spinning\<close>: a
  busy-wait on the status register is still running when the reads given to it end.
  \<open>Undefined i v\<close>: the store \<open>anchorsTimestamps[i] = v\<close> has been executed with \<open>i\<close>
  outside the array; C leaves the behaviour undefined from there on, and nothing is said
  about any variable afterwards.
\<close>

datatype 'a outcome = Ok 'a | Spinning | Undefined int u64

fun and_then :: "'a outcome \<Rightarrow> ('a \<Rightarrow> 'b outcome) \<Rightarrow> 'b outcome" where
  "and_then (Ok x) f = f x"
| "and_then Spinning f = Spinning"
| "and_then (Undefined i v) f = Undefined i v"

definition ALL_MSG_COMMON_LEN :: nat where "ALL_MSG_COMMON_LEN = 10"
definition EX_SEQ_COUNT_IDX :: nat where "EX_SEQ_COUNT_IDX = 2"
definition FINAL_MSG_TX_1_IDX :: nat where "FINAL_MSG_TX_1_IDX = 10"
definition FINAL_MSG_TX_2_IDX :: nat where "FINAL_MSG_TX_2_IDX = 14"
definition FINAL_MSG_RX_1_IDX :: nat where "FINAL_MSG_RX_1_IDX = 18"
definition ANCHOR_ID_IDX :: nat where "ANCHOR_ID_IDX = 10"
definition FINAL_MSG_TS_LEN :: nat where "FINAL_MSG_TS_LEN = 4"
definition RX_BUF_LEN :: nat where "RX_BUF_LEN = 32"

text \<open>
  \<open>ANCHORS_TOTAL_COUNT\<close> is 3 in the source. The functions below take the anchor count
  as their first argument \<open>N\<close>, so that statements about every anchor count can be made;
  the program is the instance \<open>N = ANCHORS_TOTAL_COUNT\<close>.
\<close>

definition ANCHORS_TOTAL_COUNT :: nat where "ANCHORS_TOTAL_COUNT = 3"

text \<open>The delays are \<open>int\<close> constants in C; their product 249036800 fits 32 bits.\<close>

definition UUS_TO_DWT_TIME :: int where "UUS_TO_DWT_TIME = 65536"
definition TX_ANT_DLY :: int where "TX_ANT_DLY = 16436"
definition RESP_RX_TO_FINAL_TX_DLY_UUS :: int where "RESP_RX_TO_FINAL_TX_DLY_UUS = 3800"

text \<open>The frame templates, with \<open>'W' = 0x57\<close>, \<open>'A' = 0x41\<close>, \<open>'V' = 0x56\<close>, \<open>'E' = 0x45\<close>.\<close>

definition tagFirstMsg_init :: "u8 list" where
  "tagFirstMsg_init = [0x41, 0x88, 0, 0xCA, 0xDE, 0x57, 0x41, 0x56, 0x45, 0xE0, 0, 0]"

definition anchorMsg :: "u8 list" where
  "anchorMsg = [0x41, 0x88, 0, 0xCA, 0xDE, 0x56, 0x45, 0x57, 0x41, 0xE1,
                0, 0, 0, 0, 0, 0, 0, 0, 0, 0]"

definition tagFinalMsg_init :: "u8 list" where
  "tagFinalMsg_init = [0x41, 0x88, 0, 0xCA, 0xDE, 0x57, 0x41, 0x56, 0x45, 0x23,
                       0, 0, 0, 0, 0, 0, 0, 0, 0, 0, 0, 0, 0, 0, 0, 0, 0, 0, 0, 0, 0, 0]"

section \<open>The transceiver seen from the program\<close>

text \<open>
  Modelled from the spec: the driver (\<open>deca_device_api.h\<close>, \<open>deca_regs.h\<close>) is not among
  the sources, so the bit masks of the status register and the return codes of
  \<open>dwt_starttx\<close> are not known. The spec's interface reads the status as a bitset
  \<open>{rxGood, rxTimeout, rxError, txComplete}\<close> and lets a delayed transmission answer
  success or failure. The status register is therefore a set over the four masks the
  program tests, under the names the program uses; \<open>statusReg & M\<close> is non-zero exactly
  when the set meets \<open>M\<close>.
\<close>

datatype sys_status =
  SYS_STATUS_RXFCG | SYS_STATUS_TXFRS | SYS_STATUS_ALL_RX_TO | SYS_STATUS_ALL_RX_ERR

datatype tx_mode = DWT_START_TX_IMMEDIATE | DWT_RESPONSE_EXPECTED | DWT_START_TX_DELAYED

datatype tx_result = DWT_SUCCESS | DWT_ERROR

text \<open>The driver calls that change the transceiver, in the order the program issues them.\<close>

datatype hw_call =
    Write32bitreg "sys_status set"
  | Writetxdata nat "u8 list"
  | Writetxfctrl nat nat nat
  | Starttx "tx_mode set"
  | Readrxdata nat
  | Rxenable
  | Rxreset
  | Setdelayedtrxtime u32

text \<open>
  What the transceiver shows at one read of the status register: the status, the frame in
  its receive buffer (whose length, checksum included, is what \<open>RX_FINFO\<close> reports) and the
  five raw bytes of the receive time-stamp.
\<close>

record hw_read =
  hw_status :: "sys_status set"
  hw_frame :: "u8 list"
  hw_rxstamp :: "u8 list"

text \<open>
  Everything the transceiver answers during one call of \<open>dsInitRun\<close>: the status reads of
  the response loop, the raw transmit time-stamp of the poll, the answer to the delayed
  \<open>dwt_starttx\<close>, and the status reads of the final wait for \<open>TXFRS\<close>. The lists are
  finite; a busy-wait that uses them up without leaving is still spinning.
\<close>

record hw_input =
  rx_reads :: "hw_read list"
  tx_stamp :: "u8 list"
  tx_status :: tx_result
  tx_reads :: "sys_status set list"

section \<open>The program's static variables\<close>

text \<open>
  The counters are C \<open>int\<close>s that only grow from 0; \<open>anchorsCount\<close> is bounded by the
  anchor count, \<open>txCount\<close> and \<open>rxCount\<close> only feed \<open>printf\<close> (console output is not
  modelled). \<open>anchorsTimestamps\<close> has \<open>N\<close> elements. \<open>calls\<close> is the trace of driver calls.
\<close>

record tag_state =
  tagFirstMsg :: "u8 list"
  tagFinalMsg :: "u8 list"
  exchangeSeqCount :: u8
  rxBuffer :: "u8 list"
  statusReg :: "sys_status set"
  tagTxTimestamp1 :: u64
  tagRxTimestamp1 :: u64
  tagTxTimestamp2 :: u64
  txCount :: nat
  rxCount :: nat
  anchorsCount :: nat
  anchorsTimestamps :: "u64 list"
  calls :: "hw_call list"

definition init_state :: "nat \<Rightarrow> tag_state" where
  "init_state N =
     \<lparr> tagFirstMsg = tagFirstMsg_init,
       tagFinalMsg = tagFinalMsg_init,
       exchangeSeqCount = 0,
       rxBuffer = replicate RX_BUF_LEN 0,
       statusReg = {},
       tagTxTimestamp1 = 0,
       tagRxTimestamp1 = 0,
       tagTxTimestamp2 = 0,
       txCount = 0,
       rxCount = 0,
       anchorsCount = 0,
       anchorsTimestamps = replicate N 0,
       calls = [] \<rparr>"

section \<open>Time-stamps\<close>

text \<open>
  \<open>getTxTimestampU64\<close> and \<open>getRxTimestampU64\<close> run the same loop
  \<open>for (i = 4; i >= 0; i--) { ts <<= 8; ts |= tsTab[i]; }\<close> over the five bytes the driver
  has put into \<open>tsTab\<close>.
\<close>

function ts_fold :: "int \<Rightarrow> u8 list \<Rightarrow> u64 \<Rightarrow> u64" where
  "ts_fold i tsTab ts =
     (if i \<ge> 0 then ts_fold (i - 1) tsTab (push_bit 8 ts OR ucast (tsTab ! nat i)) else ts)"
  by pat_completeness auto
termination
  by (relation "measure (\<lambda>(i, tsTab, ts). nat (i + 1))") auto

declare ts_fold.simps [simp del]

definition getTxTimestampU64 :: "u8 list \<Rightarrow> u64" where
  "getTxTimestampU64 tsTab = ts_fold 4 tsTab 0"

definition getRxTimestampU64 :: "u8 list \<Rightarrow> u64" where
  "getRxTimestampU64 tsTab = ts_fold 4 tsTab 0"

text \<open>
  Line 200: \<open>(anchorsTimestamps[ANCHORS_TOTAL_COUNT - 1] + (DLY_UUS * UUS_TO_DWT_TIME)) >> 8\<close>,
  a 64-bit sum stored into the \<open>uint32\<close> \<open>tagSendDelayTime\<close>; the argument \<open>ts\<close> is the
  table entry read, \<open>dly\<close> the delay in UWB microseconds.
\<close>

definition tagSendDelayTime_of :: "u64 \<Rightarrow> int \<Rightarrow> u32" where
  "tagSendDelayTime_of ts dly = ucast (drop_bit 8 (ts + word_of_int (dly * UUS_TO_DWT_TIME)))"

text \<open>Line 204: \<open>(((uint64)(tagSendDelayTime & 0xFFFFFFFEUL)) << 8) + TX_ANT_DLY\<close>.\<close>

definition tagTxTimestamp2_of :: "u32 \<Rightarrow> int \<Rightarrow> u64" where
  "tagTxTimestamp2_of t antDly = push_bit 8 (ucast (t AND 0xFFFFFFFE)) + word_of_int antDly"

section \<open>Writing the final message\<close>

text \<open>A pointer into a frame is the frame and an offset: \<open>tsField[i]\<close> is \<open>buf ! (off + i)\<close>.\<close>

function finalMsgSetTs_loop :: "nat \<Rightarrow> nat \<Rightarrow> u64 \<Rightarrow> u8 list \<Rightarrow> u8 list" where
  "finalMsgSetTs_loop i off ts buf =
     (if i < FINAL_MSG_TS_LEN
      then finalMsgSetTs_loop (Suc i) off (drop_bit 8 ts) (buf[off + i := ucast ts])
      else buf)"
  by pat_completeness auto
termination
  by (relation "measure (\<lambda>(i, off, ts, buf). FINAL_MSG_TS_LEN - i)") auto

declare finalMsgSetTs_loop.simps [simp del]

definition finalMsgSetTs :: "u8 list \<Rightarrow> nat \<Rightarrow> u64 \<Rightarrow> u8 list" where
  "finalMsgSetTs buf off ts = finalMsgSetTs_loop 0 off ts buf"

text \<open>The inner loop of \<open>finalMsgSetRxTs\<close>, \<open>for (j = i * 4; j < (i + 1) * FINAL_MSG_TS_LEN; j++)\<close>.\<close>

function finalMsgSetRxTs_inner :: "nat \<Rightarrow> nat \<Rightarrow> nat \<Rightarrow> u64 \<Rightarrow> u8 list \<Rightarrow> u8 list" where
  "finalMsgSetRxTs_inner j i off ts buf =
     (if j < (i + 1) * FINAL_MSG_TS_LEN
      then finalMsgSetRxTs_inner (Suc j) i off (drop_bit 8 ts) (buf[off + j := ucast ts])
      else buf)"
  by pat_completeness auto
termination
  by (relation "measure (\<lambda>(j, i, off, ts, buf). (i + 1) * FINAL_MSG_TS_LEN - j)") auto

declare finalMsgSetRxTs_inner.simps [simp del]

text \<open>The outer loop, \<open>for (i = 0; i < ANCHORS_TOTAL_COUNT; i++)\<close>, over the table \<open>tbl\<close>.\<close>

function finalMsgSetRxTs_outer :: "nat \<Rightarrow> nat \<Rightarrow> u64 list \<Rightarrow> nat \<Rightarrow> u8 list \<Rightarrow> u8 list" where
  "finalMsgSetRxTs_outer i N tbl off buf =
     (if i < N
      then finalMsgSetRxTs_outer (Suc i) N tbl off (finalMsgSetRxTs_inner (i * 4) i off (tbl ! i) buf)
      else buf)"
  by pat_completeness auto
termination
  by (relation "measure (\<lambda>(i, N, tbl, off, buf). N - i)") auto

declare finalMsgSetRxTs_outer.simps [simp del]

definition finalMsgSetRxTs :: "nat \<Rightarrow> u64 list \<Rightarrow> u8 list \<Rightarrow> nat \<Rightarrow> u8 list" where
  "finalMsgSetRxTs N tbl buf off = finalMsgSetRxTs_outer 0 N tbl off buf"

section \<open>dsInitRun\<close>

definition hw :: "hw_call list \<Rightarrow> tag_state \<Rightarrow> tag_state" where
  "hw cs s = s\<lparr>calls := calls s @ cs\<rparr>"

text \<open>Lines 120 to 135: clear the table, send the poll, reset the response counter.\<close>

definition dsInitRun_start :: "nat \<Rightarrow> tag_state \<Rightarrow> tag_state" where
  "dsInitRun_start N s =
     (let s1 = s\<lparr>anchorsTimestamps := replicate N 0\<rparr>;
          s2 = s1\<lparr>tagFirstMsg := (tagFirstMsg s1)[EX_SEQ_COUNT_IDX := exchangeSeqCount s1]\<rparr>;
          s3 = hw [Write32bitreg {SYS_STATUS_TXFRS},
                   Writetxdata (length (tagFirstMsg s2)) (tagFirstMsg s2),
                   Writetxfctrl (length (tagFirstMsg s2)) 0 1,
                   Starttx {DWT_START_TX_IMMEDIATE, DWT_RESPONSE_EXPECTED}] s2;
          s4 = s3\<lparr>txCount := Suc (txCount s3)\<rparr>
      in s4\<lparr>anchorsCount := 0\<rparr>)"

text \<open>
  \<open>anchorsTimestamps[i] = v\<close> with the \<open>int\<close> index \<open>i\<close>: inside the array the element is
  replaced. Outside the array the store is undefined behaviour: the memory around the
  table is not modelled (\<open>anchorsCount\<close> is declared just before it), and the program's
  run ends here as \<open>Undefined i v\<close>.
\<close>

definition anchorsTimestamps_store :: "int \<Rightarrow> u64 \<Rightarrow> tag_state \<Rightarrow> tag_state outcome" where
  "anchorsTimestamps_store i v s =
     (if 0 \<le> i \<and> i < int (length (anchorsTimestamps s))
      then Ok (s\<lparr>anchorsTimestamps := (anchorsTimestamps s)[nat i := v]\<rparr>)
      else Undefined i v)"

text \<open>
  Lines 166 to 176: read the anchor id from the frame, test it, store the time-stamp and
  count the response. The \<open>uint8\<close> \<open>anchorID\<close> is promoted to \<open>int\<close> in the comparison
  and in \<open>anchorID - 1\<close>.
\<close>

definition dsInitRun_record :: "nat \<Rightarrow> tag_state \<Rightarrow> tag_state outcome" where
  "dsInitRun_record N s =
     (let anchorID = rxBuffer s ! ANCHOR_ID_IDX
      in if uint anchorID > int N then Ok s
         else (case anchorsTimestamps_store (uint anchorID - 1) (tagRxTimestamp1 s) s of
                 Ok s' \<Rightarrow> Ok (s'\<lparr>anchorsCount := Suc (anchorsCount s')\<rparr>)
               | Spinning \<Rightarrow> Spinning
               | Undefined i v \<Rightarrow> Undefined i v))"

text \<open>Lines 181 to 183: the receiver is enabled again while responses are missing.\<close>

definition dsInitRun_rearm :: "nat \<Rightarrow> tag_state \<Rightarrow> tag_state" where
  "dsInitRun_rearm N s = (if anchorsCount s < N then hw [Rxenable] s else s)"

text \<open>
  Lines 158 to 183, the branch taken when the first ten bytes of \<open>rxBuffer\<close> equal those of
  \<open>anchorMsg\<close>.
\<close>

definition dsInitRun_response :: "nat \<Rightarrow> hw_read \<Rightarrow> tag_state \<Rightarrow> tag_state outcome" where
  "dsInitRun_response N rd s =
     (let s1 = s\<lparr>rxCount := Suc (rxCount s)\<rparr>;
          s2 = s1\<lparr>tagRxTimestamp1 := getRxTimestampU64 (hw_rxstamp rd)\<rparr>
      in map_outcome (dsInitRun_rearm N) (dsInitRun_record N s2))"

text \<open>
  Lines 144 to 156, the start of the body of \<open>if (statusReg & SYS_STATUS_RXFCG)\<close>: clear
  the event, read the frame length and, if it fits the buffer, the frame; then clear the
  sequence byte. \<open>dwt_readrxdata\<close> copies \<open>frameLen\<close> bytes to the start of \<open>rxBuffer\<close> and
  leaves the rest of it as it was.
\<close>

definition dsInitRun_read :: "hw_read \<Rightarrow> tag_state \<Rightarrow> tag_state" where
  "dsInitRun_read rd s =
     (let s1 = hw [Write32bitreg {SYS_STATUS_RXFCG, SYS_STATUS_TXFRS}] s;
          frameLen = length (hw_frame rd);
          s2 = (if frameLen \<le> RX_BUF_LEN
                then hw [Readrxdata frameLen]
                       (s1\<lparr>rxBuffer := hw_frame rd @ drop frameLen (rxBuffer s1)\<rparr>)
                else s1)
      in s2\<lparr>rxBuffer := (rxBuffer s2)[EX_SEQ_COUNT_IDX := 0]\<rparr>)"

text \<open>
  Lines 141 to 192, the whole body of \<open>if (statusReg & SYS_STATUS_RXFCG)\<close>. The \<open>else\<close> of
  line 185 belongs to the \<open>memcmp\<close> test of line 157.
\<close>

definition dsInitRun_frame :: "nat \<Rightarrow> hw_read \<Rightarrow> tag_state \<Rightarrow> tag_state outcome" where
  "dsInitRun_frame N rd s =
     (let s3 = dsInitRun_read rd s
      in if take ALL_MSG_COMMON_LEN (rxBuffer s3) = take ALL_MSG_COMMON_LEN anchorMsg
         then dsInitRun_response N rd s3
         else Ok (hw [Write32bitreg {SYS_STATUS_ALL_RX_TO, SYS_STATUS_ALL_RX_ERR}, Rxreset] s3))"

text \<open>
  Line 139, the busy-wait \<open>while (!((statusReg = dwt_read32bitreg(SYS_STATUS_ID)) & (...)))\<close>:
  it leaves at the first read that shows one of the three masks, and gives that read and
  the reads that are left; \<open>None\<close> when the reads end first.
\<close>

fun poll_rx :: "hw_read list \<Rightarrow> (hw_read \<times> hw_read list) option" where
  "poll_rx [] = None"
| "poll_rx (rd # rds) =
     (if hw_status rd \<inter> {SYS_STATUS_RXFCG, SYS_STATUS_ALL_RX_TO, SYS_STATUS_ALL_RX_ERR} \<noteq> {}
      then Some (rd, rds) else poll_rx rds)"

text \<open>One pass through the body of the response loop, after the busy-wait has left at \<open>rd\<close>.\<close>

definition dsInitRun_event :: "nat \<Rightarrow> hw_read \<Rightarrow> tag_state \<Rightarrow> tag_state outcome" where
  "dsInitRun_event N rd s =
     (let s1 = s\<lparr>statusReg := hw_status rd\<rparr>
      in if SYS_STATUS_RXFCG \<in> statusReg s1 then dsInitRun_frame N rd s1 else Ok s1)"

text \<open>
  Lines 137 to 193, \<open>while (anchorsCount < ANCHORS_TOTAL_COUNT)\<close>. The result is the state
  on leaving the loop and the reads not yet used.
\<close>

function dsInitRun_collect ::
  "nat \<Rightarrow> tag_state \<Rightarrow> hw_read list \<Rightarrow> (tag_state \<times> hw_read list) outcome" where
  "dsInitRun_collect N s rds =
     (if anchorsCount s < N
      then (case poll_rx rds of
              None \<Rightarrow> Spinning
            | Some (rd, rest) \<Rightarrow>
                (case dsInitRun_event N rd s of
                   Ok s' \<Rightarrow> dsInitRun_collect N s' rest
                 | Spinning \<Rightarrow> Spinning
                 | Undefined i v \<Rightarrow> Undefined i v))
      else Ok (s, rds))"
  by pat_completeness auto
termination
proof (relation "measure (\<lambda>(N, s, rds). length rds)")
  show "wf (measure (\<lambda>(N, s, rds). length rds))" by simp
next
  fix N :: nat and s s' :: tag_state and rds :: "hw_read list" and x2 rd rest
  assume p: "poll_rx rds = Some x2" and x: "(rd, rest) = x2"
  have shorter: "poll_rx xs = Some (r, ys) \<Longrightarrow> length ys < length xs" for xs r ys
    by (induction xs) (auto split: if_splits)
  from p x have "length rest < length rds" by (auto intro: shorter)
  then show "((N, s', rest), (N, s, rds)) \<in> measure (\<lambda>(N, s, rds). length rds)"
    by simp
qed

declare dsInitRun_collect.simps [simp del]

text \<open>Line 223, the busy-wait for \<open>SYS_STATUS_TXFRS\<close>.\<close>

fun poll_tx :: "sys_status set list \<Rightarrow> sys_status set list option" where
  "poll_tx [] = None"
| "poll_tx (st # sts) = (if SYS_STATUS_TXFRS \<in> st then Some sts else poll_tx sts)"

text \<open>
  Lines 195 to 218: read the poll's transmit time-stamp, program the delayed transmission,
  fill the final message, advance the sequence number and hand the frame to the
  transceiver up to the call of \<open>dwt_starttx(DWT_START_TX_DELAYED)\<close>.
  \<open>sizeof(tagFinalMsg)\<close> is the length of the frame.
\<close>

definition dsInitRun_send :: "nat \<Rightarrow> u8 list \<Rightarrow> tag_state \<Rightarrow> tag_state" where
  "dsInitRun_send N txStamp s =
     (let s1 = s\<lparr>tagTxTimestamp1 := getTxTimestampU64 txStamp\<rparr>;
          tagSendDelayTime =
            tagSendDelayTime_of (anchorsTimestamps s1 ! (N - 1)) RESP_RX_TO_FINAL_TX_DLY_UUS;
          s2 = hw [Setdelayedtrxtime tagSendDelayTime] s1;
          s3 = s2\<lparr>tagTxTimestamp2 := tagTxTimestamp2_of tagSendDelayTime TX_ANT_DLY\<rparr>;
          s4 = s3\<lparr>tagFinalMsg := finalMsgSetTs (tagFinalMsg s3) FINAL_MSG_TX_1_IDX (tagTxTimestamp1 s3)\<rparr>;
          s5 = s4\<lparr>tagFinalMsg := finalMsgSetTs (tagFinalMsg s4) FINAL_MSG_TX_2_IDX (tagTxTimestamp2 s4)\<rparr>;
          s6 = s5\<lparr>tagFinalMsg :=
                    finalMsgSetRxTs N (anchorsTimestamps s5) (tagFinalMsg s5) FINAL_MSG_RX_1_IDX\<rparr>;
          s7 = s6\<lparr>exchangeSeqCount := exchangeSeqCount s6 + 1\<rparr>;
          s8 = s7\<lparr>tagFinalMsg := (tagFinalMsg s7)[EX_SEQ_COUNT_IDX := exchangeSeqCount s7]\<rparr>
      in hw [Writetxdata (length (tagFinalMsg s8)) (tagFinalMsg s8),
             Writetxfctrl (length (tagFinalMsg s8)) 0 1,
             Starttx {DWT_START_TX_DELAYED}] s8)"

text \<open>
  Lines 195 to 232: the above, then the test of \<open>txStatus\<close>, the answer of \<open>dwt_starttx\<close>.
  The result is the value returned, 1, and the state.
\<close>

definition dsInitRun_final ::
  "nat \<Rightarrow> u8 list \<Rightarrow> tx_result \<Rightarrow> sys_status set list \<Rightarrow> tag_state \<Rightarrow> (int \<times> tag_state) outcome" where
  "dsInitRun_final N txStamp txStatus txReads s =
     (let s9 = dsInitRun_send N txStamp s
      in if txStatus = DWT_SUCCESS
         then (case poll_tx txReads of
                 None \<Rightarrow> Spinning
               | Some rest \<Rightarrow> Ok (1, hw [Write32bitreg {SYS_STATUS_TXFRS}] s9))
         else Ok (1, s9))"

definition dsInitRun :: "nat \<Rightarrow> hw_input \<Rightarrow> tag_state \<Rightarrow> (int \<times> tag_state) outcome" where
  "dsInitRun N inp s =
     and_then (dsInitRun_collect N (dsInitRun_start N s) (rx_reads inp))
       (dsInitRun_final N (tx_stamp inp) (tx_status inp) (tx_reads inp) \<circ> fst)"

section \<open>Vocabulary of the statements\<close>

text \<open>
  The five-byte little-endian decomposition of a time-stamp, as the transceiver delivers
  it to \<open>dwt_readtxtimestamp\<close> and \<open>dwt_readrxtimestamp\<close>: byte \<open>k\<close> holds bits
  \<open>8k\<close> to \<open>8k + 7\<close>.
\<close>

definition le_bytes5 :: "u64 \<Rightarrow> u8 list" where
  "le_bytes5 v = map (\<lambda>k. ucast (drop_bit (8 * k) v)) [0, 1, 2, 3, 4]"

text \<open>The truncated 32-bit little-endian encoding of a time-stamp: its low four bytes.\<close>

definition le32 :: "u64 \<Rightarrow> u8 list" where
  "le32 v = map (\<lambda>k. ucast (drop_bit (8 * k) v)) [0, 1, 2, 3]"

text \<open>The frames handed to \<open>dwt_writetxdata\<close> and the times given to \<open>dwt_setdelayedtrxtime\<close>.\<close>

fun tx_frames :: "hw_call list \<Rightarrow> u8 list list" where
  "tx_frames [] = []"
| "tx_frames (Writetxdata n d # cs) = d # tx_frames cs"
| "tx_frames (c # cs) = tx_frames cs"

fun programmed_delays :: "hw_call list \<Rightarrow> u32 list" where
  "programmed_delays [] = []"
| "programmed_delays (Setdelayedtrxtime t # cs) = t # programmed_delays cs"
| "programmed_delays (c # cs) = programmed_delays cs"

subsection \<open>Concrete reads and rounds\<close>

text \<open>The response of anchor \<open>a\<close>, 20 bytes, received with the raw time-stamp \<open>st\<close>.\<close>

definition anchor_response :: "u8 \<Rightarrow> u8 list \<Rightarrow> hw_read" where
  "anchor_response a st =
     \<lparr>hw_status = {SYS_STATUS_RXFCG}, hw_frame = anchorMsg[ANCHOR_ID_IDX := a], hw_rxstamp = st\<rparr>"

definition rx_timeout :: hw_read where
  "rx_timeout = \<lparr>hw_status = {SYS_STATUS_ALL_RX_TO}, hw_frame = [], hw_rxstamp = []\<rparr>"

definition rx_error :: hw_read where
  "rx_error = \<lparr>hw_status = {SYS_STATUS_ALL_RX_ERR}, hw_frame = [], hw_rxstamp = []\<rparr>"


text \<open>
  Three rounds: the anchors answer in the order 1, 2, 3; in the order 3, 1, 2; and in
  order with a timeout in between and the delayed transmission refused. The response
  time-stamps are \<open>0x1000000\<close>, \<open>0x2000000\<close> and \<open>0x3000000\<close> in the order of arrival.
\<close>

definition round_1_2_3 :: hw_input where
  "round_1_2_3 =
     \<lparr>rx_reads = [anchor_response 1 [0, 0, 0, 1, 0], anchor_response 2 [0, 0, 0, 2, 0],
                  anchor_response 3 [0, 0, 0, 3, 0]],
      tx_stamp = [5, 0, 0, 0, 0], tx_status = DWT_SUCCESS, tx_reads = [{}, {SYS_STATUS_TXFRS}]\<rparr>"

definition round_3_1_2 :: hw_input where
  "round_3_1_2 =
     \<lparr>rx_reads = [anchor_response 3 [0, 0, 0, 1, 0], anchor_response 1 [0, 0, 0, 2, 0],
                  anchor_response 2 [0, 0, 0, 3, 0]],
      tx_stamp = [5, 0, 0, 0, 0], tx_status = DWT_SUCCESS, tx_reads = [{}, {SYS_STATUS_TXFRS}]\<rparr>"

definition round_abandoned :: hw_input where
  "round_abandoned =
     \<lparr>rx_reads = [anchor_response 1 [0, 0, 0, 1, 0], rx_timeout, anchor_response 2 [0, 0, 0, 2, 0],
                  anchor_response 3 [0, 0, 0, 3, 0]],
      tx_stamp = [5, 0, 0, 0, 0], tx_status = DWT_ERROR, tx_reads = []\<rparr>"

section \<open>Time-stamp assembly\<close>

lemma ts_fold_unroll:
  "ts_fold 4 t 0 =
     push_bit 32 (ucast (t ! 4)) OR push_bit 24 (ucast (t ! 3)) OR push_bit 16 (ucast (t ! 2))
       OR push_bit 8 (ucast (t ! 1)) OR ucast (t ! 0)"
  by (simp add: ts_fold.simps push_bit_or ac_simps)

lemma ts_fold_40_bits: "drop_bit 40 (ts_fold 4 t 0) = 0"
  unfolding ts_fold_unroll
  by (rule bit_eqI) (auto simp add: bit_simps dest: bit_imp_le_length)

lemma ts_fold_le_bytes5: "ts_fold 4 (le_bytes5 v) 0 = take_bit 40 v"
  unfolding ts_fold_unroll le_bytes5_def
  apply (rule bit_eqI)
  subgoal for n
    apply (cases "n < 8"; cases "n < 16"; cases "n < 24"; cases "n < 32"; cases "n < 40")
    apply (auto simp add: bit_simps not_less dest: bit_imp_le_length)
    done
  done

text \<open>
  C7. Assembling is the exact inverse of the five-byte little-endian decomposition: for
  every value \<open>v\<close> below \<open>2^40\<close>, \<open>getRxTimestampU64\<close> and \<open>getTxTimestampU64\<close> (which
  fold the most significant byte first) give back \<open>v\<close> from the bytes of \<open>v\<close>. Both are
  total functions: there is no failure.
\<close>

theorem assemble_inverts_le_bytes5:
  assumes "v < 2 ^ 40"
  shows "getRxTimestampU64 (le_bytes5 v) = v \<and> getTxTimestampU64 (le_bytes5 v) = v"
proof -
  from assms have "take_bit 40 v = v"
    by (simp add: take_bit_eq_mask less_mask_eq)
  then show ?thesis
    by (simp add: getRxTimestampU64_def getTxTimestampU64_def ts_fold_le_bytes5)
qed

theorem assemble_inverts_le_bytes5_witness:
  "(0x123456789A :: u64) < 2 ^ 40
   \<and> le_bytes5 0x123456789A = [0x9A, 0x78, 0x56, 0x34, 0x12]
   \<and> getRxTimestampU64 (le_bytes5 0x123456789A) = 0x123456789A
   \<and> getTxTimestampU64 (le_bytes5 0x123456789A) = 0x123456789A"
  using assemble_inverts_le_bytes5 [of "0x123456789A"] by (simp add: le_bytes5_def)

section \<open>The delayed transmission time and the predicted time-stamp\<close>

lemma and_not_mask_shift: "(w::'a::len word) AND NOT (mask k) = push_bit k (drop_bit k w)"
  by (rule bit_eqI) (auto simp add: bit_simps dest: bit_imp_le_length)

lemma and_fffffffe: "(s::u32) AND 0xFFFFFFFE = s div 2 * 2"
proof -
  have e: "(0xFFFFFFFE::u32) = NOT (mask 1)" by simp
  show ?thesis unfolding e and_not_mask_shift by (simp add: push_bit_eq_mult drop_bit_eq_div)
qed

lemma unat_and_fffffffe: "unat ((s::u32) AND 0xFFFFFFFE) = 2 * (unat s div 2)"
proof -
  have "unat s < 2 ^ 32" using unsigned_less [of s] by simp
  then show ?thesis
    unfolding and_fffffffe
    by (simp add: unat_word_ariths unat_div)
qed

lemma unat_tagTxTimestamp2_of:
  assumes d: "0 \<le> d" "d < 2 ^ 31"
  shows "unat (tagTxTimestamp2_of s d) = 2 * (unat s div 2) * 256 + nat d"
proof -
  have b: "unat s < 2 ^ 32" using unsigned_less [of s] by simp
  have u: "unat (ucast (s AND 0xFFFFFFFE) :: u64) = 2 * (unat s div 2)"
    using b by (simp add: unsigned_ucast_eq take_bit_eq_mod unat_and_fffffffe)
  have p: "unat (push_bit 8 (ucast (s AND 0xFFFFFFFE) :: u64)) = 2 * (unat s div 2) * 256"
    using b by (simp add: push_bit_eq_mult unat_word_ariths u)
  have w: "unat (word_of_int d :: u64) = nat d"
    using d by (simp add: unsigned_of_int take_bit_eq_mod nat_mod_distrib)
  show ?thesis
    unfolding tagTxTimestamp2_of_def
    using b d unfolding unat_word_ariths p w by simp
qed

lemma drop_bit_eq_0_iff_unat: "drop_bit k (x::u64) = 0 \<longleftrightarrow> unat x < 2 ^ k"
proof -
  have "drop_bit k x = 0 \<longleftrightarrow> unat (drop_bit k x) = 0"
    by (simp add: unsigned_eq_0_iff)
  also have "\<dots> \<longleftrightarrow> unat x div 2 ^ k = 0"
    by (simp only: unat_drop_bit_eq drop_bit_nat_def)
  also have "\<dots> \<longleftrightarrow> unat x < 2 ^ k"
    by (simp add: div_eq_0_iff)
  finally show ?thesis .
qed

text \<open>
  C8. For every 32-bit scheduled time and every antenna delay that is a non-negative C
  \<open>int\<close>, the predicted final-TX time-stamp is, as a number, the scheduled time with its low
  bit masked to zero, shifted left by 8, plus the antenna delay (nothing wraps in the 64
  bits). With the table entry 1000000 and the delay 3800 the scheduled time is
  \<open>(1000000 + 3800 * 65536) >> 8\<close>, and with the antenna delay 16436 the predicted
  time-stamp is \<open>((scheduledTime & 0xFFFFFFFE) << 8) + 16436\<close>.
\<close>

theorem predicted_final_tx_timestamp:
  assumes "0 \<le> antDly" "antDly < 2 ^ 31"
  shows "unat (tagTxTimestamp2_of sched antDly) = push_bit 8 (unat sched AND 0xFFFFFFFE) + nat antDly
         \<and> unat (tagSendDelayTime_of 1000000 RESP_RX_TO_FINAL_TX_DLY_UUS)
             = drop_bit 8 (1000000 + 3800 * 65536)
         \<and> unat (tagTxTimestamp2_of (tagSendDelayTime_of 1000000 RESP_RX_TO_FINAL_TX_DLY_UUS) TX_ANT_DLY)
             = push_bit 8 (drop_bit 8 (1000000 + 3800 * 65536) AND 0xFFFFFFFE) + 16436"
proof -
  have m: "unat sched AND 0xFFFFFFFE = 2 * (unat sched div 2)"
    using unat_and_fffffffe [of sched] by (simp add: unsigned_and_eq)
  have g: "unat (tagTxTimestamp2_of sched antDly) = push_bit 8 (unat sched AND 0xFFFFFFFE) + nat antDly"
    unfolding m using unat_tagTxTimestamp2_of [OF assms, of sched] by (simp add: push_bit_eq_mult)
  have s: "tagSendDelayTime_of 1000000 RESP_RX_TO_FINAL_TX_DLY_UUS = 976706"
    by (simp add: tagSendDelayTime_of_def RESP_RX_TO_FINAL_TX_DLY_UUS_def UUS_TO_DWT_TIME_def)
  have d: "drop_bit 8 (1000000 + 3800 * 65536) = (976706::nat)"
    by (simp add: drop_bit_eq_div)
  have t: "tagTxTimestamp2_of 976706 TX_ANT_DLY = 250053172"
    by (simp add: tagTxTimestamp2_of_def TX_ANT_DLY_def)
  have a: "(976706::nat) AND 0xFFFFFFFE = 976706"
    by simp
  show ?thesis
    unfolding s d t a using g by (simp add: push_bit_eq_mult)
qed

theorem predicted_final_tx_timestamp_witness:
  "(0::int) \<le> 16436 \<and> (16436::int) < 2 ^ 31
   \<and> unat (tagTxTimestamp2_of 976706 16436) = push_bit 8 (976706 AND 0xFFFFFFFE) + nat 16436
   \<and> tagTxTimestamp2_of 976706 16436 = 250053172"
  using predicted_final_tx_timestamp [of 16436 976706]
  by (simp add: tagTxTimestamp2_of_def)

text \<open>
  C5, as the program has it. The assembled poll-TX and response-RX time-stamps have bits
  40 to 63 zero, whatever the five bytes are. The predicted final-TX time-stamp
  \<open>((scheduledTime & 0xFFFFFFFE) << 8) + TX_ANT_DLY\<close> has bits 41 to 63 zero, and its bit 40
  is zero exactly when the scheduled time is at most \<open>0xFFFFFFBF\<close>; nothing masks it to 40
  bits (only its low 32 bits go into the final message).
\<close>

theorem timestamps_bits_above_40:
  "drop_bit 40 (getTxTimestampU64 t) = 0
   \<and> drop_bit 40 (getRxTimestampU64 t) = 0
   \<and> drop_bit 41 (tagTxTimestamp2_of sched TX_ANT_DLY) = 0
   \<and> (drop_bit 40 (tagTxTimestamp2_of sched TX_ANT_DLY) = 0 \<longleftrightarrow> sched \<le> 0xFFFFFFBF)"
proof -
  have b: "unat sched < 2 ^ 32" using unsigned_less [of sched] by simp
  have u: "unat (tagTxTimestamp2_of sched TX_ANT_DLY) = 2 * (unat sched div 2) * 256 + 16436"
    using unat_tagTxTimestamp2_of [of TX_ANT_DLY sched] by (simp add: TX_ANT_DLY_def)
  have le: "sched \<le> 0xFFFFFFBF \<longleftrightarrow> unat sched \<le> 0xFFFFFFBF"
    by (simp add: word_le_nat_alt)
  define q where "q = unat sched div 2"
  have q: "q \<le> 2147483647" using b by (simp add: q_def)
  have u': "unat (tagTxTimestamp2_of sched TX_ANT_DLY) = 512 * q + 16436"
    using u by (simp add: q_def)
  have a: "drop_bit 41 (tagTxTimestamp2_of sched TX_ANT_DLY) = 0"
    unfolding drop_bit_eq_0_iff_unat u' using q by simp
  have "512 * q + 16436 < (2::nat) ^ 40 \<longleftrightarrow> q \<le> 2147483615"
    by simp linarith
  also have "\<dots> \<longleftrightarrow> unat sched \<le> 0xFFFFFFBF"
    unfolding q_def by linarith
  finally have c: "drop_bit 40 (tagTxTimestamp2_of sched TX_ANT_DLY) = 0 \<longleftrightarrow> sched \<le> 0xFFFFFFBF"
    unfolding drop_bit_eq_0_iff_unat u' le .
  show ?thesis
    using a c by (simp add: getTxTimestampU64_def getRxTimestampU64_def ts_fold_40_bits)
qed

theorem timestamps_bits_above_40_witness:
  "drop_bit 40 (getRxTimestampU64 [0xFF, 0xFF, 0xFF, 0xFF, 0xFF]) = 0
   \<and> drop_bit 41 (tagTxTimestamp2_of 0xFFFFFFFF TX_ANT_DLY) = 0
   \<and> drop_bit 40 (tagTxTimestamp2_of 0xFFFFFFBF TX_ANT_DLY) = 0"
  using timestamps_bits_above_40 [of "[0xFF, 0xFF, 0xFF, 0xFF, 0xFF]" "0xFFFFFFFF"]
    timestamps_bits_above_40 [of "[]" "0xFFFFFFBF"]
  by simp

text \<open>
  The response time-stamp \<open>0xFFF127FF00\<close>, read from its five bytes, gives the scheduled
  time \<open>0xFFFFFFFF\<close>, whose predicted final-TX time-stamp \<open>0x10000003E34\<close> has bit 40 set.
\<close>

theorem timestamps_bits_above_40_counterexample:
  "tagSendDelayTime_of (getRxTimestampU64 [0x00, 0xFF, 0x27, 0xF1, 0xFF]) RESP_RX_TO_FINAL_TX_DLY_UUS
     = 0xFFFFFFFF
   \<and> tagTxTimestamp2_of 0xFFFFFFFF TX_ANT_DLY = 0x10000003E34
   \<and> drop_bit 40 (tagTxTimestamp2_of 0xFFFFFFFF TX_ANT_DLY) \<noteq> 0"
  by (simp add: getRxTimestampU64_def ts_fold.simps tagSendDelayTime_of_def tagTxTimestamp2_of_def
        RESP_RX_TO_FINAL_TX_DLY_UUS_def UUS_TO_DWT_TIME_def TX_ANT_DLY_def)

section \<open>Evaluating the program on concrete input\<close>

lemmas idx_defs = ALL_MSG_COMMON_LEN_def EX_SEQ_COUNT_IDX_def FINAL_MSG_TX_1_IDX_def
  FINAL_MSG_TX_2_IDX_def FINAL_MSG_RX_1_IDX_def ANCHOR_ID_IDX_def FINAL_MSG_TS_LEN_def RX_BUF_LEN_def

lemmas event_defs = dsInitRun_event_def dsInitRun_frame_def dsInitRun_read_def dsInitRun_response_def
  dsInitRun_record_def dsInitRun_rearm_def hw_def anchorsTimestamps_store_def Let_def

lemmas run_defs = dsInitRun_def dsInitRun_start_def dsInitRun_collect.simps dsInitRun_final_def
  dsInitRun_send_def event_defs idx_defs init_state_def anchor_response_def rx_timeout_def rx_error_def
  anchorMsg_def tagFirstMsg_init_def tagFinalMsg_init_def getRxTimestampU64_def getTxTimestampU64_def
  ts_fold.simps tagSendDelayTime_of_def tagTxTimestamp2_of_def RESP_RX_TO_FINAL_TX_DLY_UUS_def
  UUS_TO_DWT_TIME_def TX_ANT_DLY_def ANCHORS_TOTAL_COUNT_def
  finalMsgSetTs_def finalMsgSetTs_loop.simps finalMsgSetRxTs_def finalMsgSetRxTs_outer.simps
  finalMsgSetRxTs_inner.simps

lemma replicate_3: "replicate 3 x = [x, x, x]"
  by (simp add: numeral_3_eq_3)

lemma replicate_32:
  "replicate 32 x = [x, x, x, x, x, x, x, x, x, x, x, x, x, x, x, x,
                     x, x, x, x, x, x, x, x, x, x, x, x, x, x, x, x]"
  by (simp add: eval_nat_numeral)

section \<open>The bytes of the final message\<close>

lemma length_le32 [simp]: "length (le32 v) = 4"
  by (simp add: le32_def)

lemma four_updates:
  assumes "off + 4 \<le> length buf"
  shows "buf[off := a, Suc off := b, Suc (Suc off) := c, Suc (Suc (Suc off)) := d]
         = take off buf @ [a, b, c, d] @ drop (off + 4) buf"
proof (rule nth_equalityI)
  show "length (buf[off := a, Suc off := b, Suc (Suc off) := c, Suc (Suc (Suc off)) := d])
        = length (take off buf @ [a, b, c, d] @ drop (off + 4) buf)"
    using assms by simp
next
  fix i
  assume "i < length (buf[off := a, Suc off := b, Suc (Suc off) := c, Suc (Suc (Suc off)) := d])"
  then have i: "i < length buf" by simp
  consider "i < off" | "i = off" | "i = Suc off" | "i = Suc (Suc off)" | "i = Suc (Suc (Suc off))"
    | "off + 4 \<le> i" by linarith
  then show "buf[off := a, Suc off := b, Suc (Suc off) := c, Suc (Suc (Suc off)) := d] ! i
        = (take off buf @ [a, b, c, d] @ drop (off + 4) buf) ! i"
  proof cases
    case 6
    then obtain k where k: "i = off + 4 + k" using le_Suc_ex by blast
    with i assms show ?thesis by (simp add: nth_append)
  qed (use i assms in \<open>simp_all add: nth_append\<close>)
qed

lemma finalMsgSetTs_loop_unroll:
  "finalMsgSetTs_loop 0 off ts buf
   = buf[off := ucast ts, Suc off := ucast (drop_bit 8 ts), Suc (Suc off) := ucast (drop_bit 16 ts),
         Suc (Suc (Suc off)) := ucast (drop_bit 24 ts)]"
  by (simp add: finalMsgSetTs_loop.simps FINAL_MSG_TS_LEN_def)

lemma finalMsgSetTs_eq:
  "off + 4 \<le> length buf \<Longrightarrow> finalMsgSetTs buf off ts = take off buf @ le32 ts @ drop (off + 4) buf"
  by (simp add: finalMsgSetTs_def finalMsgSetTs_loop_unroll four_updates le32_def)

lemma finalMsgSetRxTs_inner_unroll:
  "finalMsgSetRxTs_inner (i * 4) i off ts buf
   = buf[off + i * 4 := ucast ts, Suc (off + i * 4) := ucast (drop_bit 8 ts),
         Suc (Suc (off + i * 4)) := ucast (drop_bit 16 ts),
         Suc (Suc (Suc (off + i * 4))) := ucast (drop_bit 24 ts)]"
  by (simp add: finalMsgSetRxTs_inner.simps FINAL_MSG_TS_LEN_def)

lemma finalMsgSetRxTs_inner_eq:
  "off + i * 4 + 4 \<le> length buf \<Longrightarrow>
   finalMsgSetRxTs_inner (i * 4) i off ts buf
   = take (off + i * 4) buf @ le32 ts @ drop (off + i * 4 + 4) buf"
  by (simp add: finalMsgSetRxTs_inner_unroll four_updates le32_def)

lemma finalMsgSetRxTs_outer_eq:
  "i \<le> N \<Longrightarrow> length tbl = N \<Longrightarrow> off + 4 * N \<le> length buf \<Longrightarrow>
   finalMsgSetRxTs_outer i N tbl off buf
   = take (off + i * 4) buf @ concat (map le32 (drop i tbl)) @ drop (off + 4 * N) buf"
proof (induction i N tbl off buf rule: finalMsgSetRxTs_outer.induct)
  case (1 i N tbl off buf)
  show ?case
  proof (cases "i < N")
    case False
    then have "finalMsgSetRxTs_outer i N tbl off buf = buf"
      by (subst finalMsgSetRxTs_outer.simps) simp
    with False "1.prems" show ?thesis
      by (simp add: mult.commute)
  next
    case True
    define buf' where "buf' = finalMsgSetRxTs_inner (i * 4) i off (tbl ! i) buf"
    have b: "buf' = take (off + i * 4) buf @ le32 (tbl ! i) @ drop (off + i * 4 + 4) buf"
      unfolding buf'_def using True "1.prems" by (intro finalMsgSetRxTs_inner_eq) simp
    have l: "length buf' = length buf"
      unfolding b using True "1.prems" by simp
    have ih: "finalMsgSetRxTs_outer (Suc i) N tbl off buf'
              = take (off + Suc i * 4) buf' @ concat (map le32 (drop (Suc i) tbl)) @ drop (off + 4 * N) buf'"
      unfolding buf'_def using True "1.prems" l [unfolded buf'_def]
      by (intro "1.IH") simp_all
    have t: "take (off + Suc i * 4) buf' = take (off + i * 4) buf @ le32 (tbl ! i)"
      unfolding b using True "1.prems" by simp
    have d: "drop (off + 4 * N) buf' = drop (off + 4 * N) buf"
      unfolding b using True "1.prems" by (simp add: add.commute)
    have c: "drop i tbl = tbl ! i # drop (Suc i) tbl"
      using True "1.prems" by (simp add: Cons_nth_drop_Suc)
    have "finalMsgSetRxTs_outer i N tbl off buf = finalMsgSetRxTs_outer (Suc i) N tbl off buf'"
      unfolding buf'_def using True by (subst finalMsgSetRxTs_outer.simps) simp
    also have "\<dots> = (take (off + i * 4) buf @ le32 (tbl ! i))
                      @ concat (map le32 (drop (Suc i) tbl)) @ drop (off + 4 * N) buf"
      by (simp only: ih t d)
    also have "\<dots> = take (off + i * 4) buf @ concat (map le32 (drop i tbl)) @ drop (off + 4 * N) buf"
      by (simp add: c)
    finally show ?thesis .
  qed
qed

lemma length_finalMsgSetTs [simp]: "length (finalMsgSetTs buf off ts) = length buf"
  by (simp add: finalMsgSetTs_def finalMsgSetTs_loop_unroll)

lemma length_finalMsgSetRxTs_outer [simp]:
  "length (finalMsgSetRxTs_outer i N tbl off buf) = length buf"
proof (induction i N tbl off buf rule: finalMsgSetRxTs_outer.induct)
  case (1 i N tbl off buf)
  show ?case
  proof (cases "i < N")
    case True
    with "1.IH" show ?thesis
      by (subst finalMsgSetRxTs_outer.simps) (simp add: finalMsgSetRxTs_inner_unroll)
  next
    case False
    then show ?thesis by (subst finalMsgSetRxTs_outer.simps) simp
  qed
qed

lemma length_finalMsgSetRxTs [simp]: "length (finalMsgSetRxTs N tbl buf off) = length buf"
  by (simp add: finalMsgSetRxTs_def)

lemma final_frame_bytes:
  assumes l: "length buf = 20 + 4 * N" and t: "length tbl = N"
  shows "(finalMsgSetRxTs N tbl
            (finalMsgSetTs (finalMsgSetTs buf FINAL_MSG_TX_1_IDX t1) FINAL_MSG_TX_2_IDX t2)
            FINAL_MSG_RX_1_IDX)[EX_SEQ_COUNT_IDX := q]
         = (take 10 buf)[2 := q] @ le32 t1 @ le32 t2 @ concat (map le32 tbl) @ drop (18 + 4 * N) buf"
proof -
  define A where "A = finalMsgSetTs buf FINAL_MSG_TX_1_IDX t1"
  define B where "B = finalMsgSetTs A FINAL_MSG_TX_2_IDX t2"
  have a: "A = take 10 buf @ le32 t1 @ drop 14 buf"
    unfolding A_def FINAL_MSG_TX_1_IDX_def using l by (simp add: finalMsgSetTs_eq)
  have la: "length A = 20 + 4 * N" unfolding A_def using l by simp
  have "B = take 14 A @ le32 t2 @ drop 18 A"
    unfolding B_def FINAL_MSG_TX_2_IDX_def using la by (simp add: finalMsgSetTs_eq)
  then have b: "B = take 10 buf @ le32 t1 @ le32 t2 @ drop 18 buf"
    unfolding a using l by simp
  have lb: "length B = 20 + 4 * N" unfolding B_def using la by simp
  have "finalMsgSetRxTs N tbl B FINAL_MSG_RX_1_IDX
        = take 18 B @ concat (map le32 tbl) @ drop (18 + 4 * N) B"
    unfolding finalMsgSetRxTs_def FINAL_MSG_RX_1_IDX_def
    using finalMsgSetRxTs_outer_eq [of 0 N tbl 18 B] t lb by simp
  then have c: "finalMsgSetRxTs N tbl B FINAL_MSG_RX_1_IDX
        = take 10 buf @ le32 t1 @ le32 t2 @ concat (map le32 tbl) @ drop (18 + 4 * N) buf"
    unfolding b using l by (simp add: add.commute)
  show ?thesis
    unfolding A_def [symmetric] B_def [symmetric] c EX_SEQ_COUNT_IDX_def
    using l by (simp add: list_update_append)
qed

section \<open>What one round keeps and changes\<close>

lemma tx_frames_append: "tx_frames (xs @ ys) = tx_frames xs @ tx_frames ys"
  by (induction xs rule: tx_frames.induct) simp_all

lemma start_fields:
  "tagFinalMsg (dsInitRun_start N s) = tagFinalMsg s"
  "exchangeSeqCount (dsInitRun_start N s) = exchangeSeqCount s"
  "anchorsCount (dsInitRun_start N s) = 0"
  "anchorsTimestamps (dsInitRun_start N s) = replicate N 0"
  "tagFirstMsg (dsInitRun_start N s) = (tagFirstMsg s)[EX_SEQ_COUNT_IDX := exchangeSeqCount s]"
  "tx_frames (calls (dsInitRun_start N s))
     = tx_frames (calls s) @ [(tagFirstMsg s)[EX_SEQ_COUNT_IDX := exchangeSeqCount s]]"
  by (simp_all add: dsInitRun_start_def hw_def Let_def tx_frames_append)

lemma record_Ok:
  assumes "dsInitRun_record N s = Ok s'"
  shows "s' = s \<or> (\<exists>k v. s' = s\<lparr>anchorsTimestamps := (anchorsTimestamps s)[k := v],
                                     anchorsCount := Suc (anchorsCount s)\<rparr>)"
proof (cases "uint (rxBuffer s ! ANCHOR_ID_IDX) > int N")
  case True
  with assms show ?thesis by (simp add: dsInitRun_record_def Let_def)
next
  case False
  show ?thesis
  proof (cases "anchorsTimestamps_store (uint (rxBuffer s ! ANCHOR_ID_IDX) - 1) (tagRxTimestamp1 s) s")
    case (Ok t)
    then have "t = s\<lparr>anchorsTimestamps := (anchorsTimestamps s)
        [nat (uint (rxBuffer s ! ANCHOR_ID_IDX) - 1) := tagRxTimestamp1 s]\<rparr>"
      by (simp add: anchorsTimestamps_store_def split: if_splits)
    moreover from assms False Ok have "s' = t\<lparr>anchorsCount := Suc (anchorsCount t)\<rparr>"
      by (simp add: dsInitRun_record_def Let_def)
    ultimately show ?thesis by auto
  next
    case Spinning
    with assms False show ?thesis by (simp add: dsInitRun_record_def Let_def)
  next
    case (Undefined i v)
    with assms False show ?thesis by (simp add: dsInitRun_record_def Let_def)
  qed
qed

lemma read_keeps:
  "anchorsCount (dsInitRun_read rd s) = anchorsCount s"
  "anchorsTimestamps (dsInitRun_read rd s) = anchorsTimestamps s"
  "rxCount (dsInitRun_read rd s) = rxCount s"
  "tagRxTimestamp1 (dsInitRun_read rd s) = tagRxTimestamp1 s"
  "tagFirstMsg (dsInitRun_read rd s) = tagFirstMsg s"
  "tagFinalMsg (dsInitRun_read rd s) = tagFinalMsg s"
  "exchangeSeqCount (dsInitRun_read rd s) = exchangeSeqCount s"
  "tx_frames (calls (dsInitRun_read rd s)) = tx_frames (calls s)"
  by (simp_all add: dsInitRun_read_def hw_def Let_def tx_frames_append)


lemma response_Ok:
  assumes "dsInitRun_response N rd s = Ok s'"
  shows "tagFirstMsg s' = tagFirstMsg s"
    and "tagFinalMsg s' = tagFinalMsg s"
    and "exchangeSeqCount s' = exchangeSeqCount s"
    and "length (anchorsTimestamps s') = length (anchorsTimestamps s)"
    and "tx_frames (calls s') = tx_frames (calls s)"
    and "anchorsCount s' = anchorsCount s \<or> anchorsCount s' = Suc (anchorsCount s)"
proof -
  define s2 where "s2 = s\<lparr>rxCount := Suc (rxCount s),
                           tagRxTimestamp1 := getRxTimestampU64 (hw_rxstamp rd)\<rparr>"
  from assms obtain t where t: "dsInitRun_record N s2 = Ok t" and s': "s' = dsInitRun_rearm N t"
    by (cases "dsInitRun_record N s2") (simp_all add: dsInitRun_response_def Let_def s2_def)
  from record_Ok [OF t]
  have "tagFirstMsg t = tagFirstMsg s \<and> tagFinalMsg t = tagFinalMsg s
      \<and> exchangeSeqCount t = exchangeSeqCount s
      \<and> length (anchorsTimestamps t) = length (anchorsTimestamps s)
      \<and> tx_frames (calls t) = tx_frames (calls s)
      \<and> (anchorsCount t = anchorsCount s \<or> anchorsCount t = Suc (anchorsCount s))"
    by (auto simp add: s2_def)
  then show "tagFirstMsg s' = tagFirstMsg s"
    and "tagFinalMsg s' = tagFinalMsg s"
    and "exchangeSeqCount s' = exchangeSeqCount s"
    and "length (anchorsTimestamps s') = length (anchorsTimestamps s)"
    and "tx_frames (calls s') = tx_frames (calls s)"
    and "anchorsCount s' = anchorsCount s \<or> anchorsCount s' = Suc (anchorsCount s)"
    unfolding s' by (simp_all add: dsInitRun_rearm_def hw_def tx_frames_append)
qed

lemma frame_cases:
  "dsInitRun_frame N rd s
   = (if take ALL_MSG_COMMON_LEN (rxBuffer (dsInitRun_read rd s)) = take ALL_MSG_COMMON_LEN anchorMsg
      then dsInitRun_response N rd (dsInitRun_read rd s)
      else Ok (hw [Write32bitreg {SYS_STATUS_ALL_RX_TO, SYS_STATUS_ALL_RX_ERR}, Rxreset]
                 (dsInitRun_read rd s)))"
  unfolding dsInitRun_frame_def Let_def ..

lemma event_cases:
  "dsInitRun_event N rd s
   = (if SYS_STATUS_RXFCG \<in> hw_status rd
      then dsInitRun_frame N rd (s\<lparr>statusReg := hw_status rd\<rparr>)
      else Ok (s\<lparr>statusReg := hw_status rd\<rparr>))"
  by (simp add: dsInitRun_event_def Let_def)

lemma event_Ok:
  assumes "dsInitRun_event N rd s = Ok s'"
  shows "tagFirstMsg s' = tagFirstMsg s"
    and "tagFinalMsg s' = tagFinalMsg s"
    and "exchangeSeqCount s' = exchangeSeqCount s"
    and "length (anchorsTimestamps s') = length (anchorsTimestamps s)"
    and "tx_frames (calls s') = tx_frames (calls s)"
    and "anchorsCount s' = anchorsCount s \<or> anchorsCount s' = Suc (anchorsCount s)"
proof -
  define s0 where "s0 = s\<lparr>statusReg := hw_status rd\<rparr>"
  define s1 where "s1 = dsInitRun_read rd s0"
  have k: "tagFirstMsg s1 = tagFirstMsg s" "tagFinalMsg s1 = tagFinalMsg s"
    "exchangeSeqCount s1 = exchangeSeqCount s" "anchorsTimestamps s1 = anchorsTimestamps s"
    "tx_frames (calls s1) = tx_frames (calls s)" "anchorsCount s1 = anchorsCount s"
    by (simp_all add: s1_def s0_def read_keeps)
  have "tagFirstMsg s' = tagFirstMsg s \<and> tagFinalMsg s' = tagFinalMsg s
      \<and> exchangeSeqCount s' = exchangeSeqCount s
      \<and> length (anchorsTimestamps s') = length (anchorsTimestamps s)
      \<and> tx_frames (calls s') = tx_frames (calls s)
      \<and> (anchorsCount s' = anchorsCount s \<or> anchorsCount s' = Suc (anchorsCount s))"
  proof (cases "SYS_STATUS_RXFCG \<in> hw_status rd")
    case False
    with assms have "s' = s0" by (simp add: event_cases s0_def)
    then show ?thesis by (simp add: s0_def)
  next
    case True
    with assms have f: "dsInitRun_frame N rd s0 = Ok s'"
      by (simp add: event_cases s0_def)
    show ?thesis
    proof (cases "take ALL_MSG_COMMON_LEN (rxBuffer s1) = take ALL_MSG_COMMON_LEN anchorMsg")
      case header: True
      have "dsInitRun_frame N rd s0 = dsInitRun_response N rd s1"
        unfolding frame_cases s1_def [symmetric] by (rule if_P [OF header])
      with f have "dsInitRun_response N rd s1 = Ok s'" by simp
      from response_Ok [OF this] k show ?thesis by simp
    next
      case other: False
      have "dsInitRun_frame N rd s0
            = Ok (hw [Write32bitreg {SYS_STATUS_ALL_RX_TO, SYS_STATUS_ALL_RX_ERR}, Rxreset] s1)"
        unfolding frame_cases s1_def [symmetric] by (rule if_not_P [OF other])
      with f have "s' = hw [Write32bitreg {SYS_STATUS_ALL_RX_TO, SYS_STATUS_ALL_RX_ERR}, Rxreset] s1"
        by simp
      with k show ?thesis by (simp add: hw_def tx_frames_append)
    qed
  qed
  then show "tagFirstMsg s' = tagFirstMsg s"
    and "tagFinalMsg s' = tagFinalMsg s"
    and "exchangeSeqCount s' = exchangeSeqCount s"
    and "length (anchorsTimestamps s') = length (anchorsTimestamps s)"
    and "tx_frames (calls s') = tx_frames (calls s)"
    and "anchorsCount s' = anchorsCount s \<or> anchorsCount s' = Suc (anchorsCount s)"
    by blast+
qed

lemma collect_step:
  assumes "dsInitRun_collect N s rds = Ok (s', rest)" and "anchorsCount s < N"
  obtains rd rest' t where "poll_rx rds = Some (rd, rest')"
    and "dsInitRun_event N rd s = Ok t"
    and "dsInitRun_collect N t rest' = Ok (s', rest)"
  using assms
  by (auto simp add: dsInitRun_collect.simps [of N s] split: option.splits outcome.splits)

lemma collect_leaves:
  "dsInitRun_collect N s rds = Ok (s', rest) \<Longrightarrow> \<not> anchorsCount s' < N"
proof (induction N s rds rule: dsInitRun_collect.induct)
  case (1 N s rds)
  show ?case
  proof (cases "anchorsCount s < N")
    case False
    with "1.prems" show ?thesis by (simp add: dsInitRun_collect.simps [of N s])
  next
    case True
    from "1.prems" True obtain rd rest' t where p: "poll_rx rds = Some (rd, rest')"
      and e: "dsInitRun_event N rd s = Ok t"
      and c: "dsInitRun_collect N t rest' = Ok (s', rest)"
      by (rule collect_step)
    from "1.IH" [OF True p refl e c] show ?thesis .
  qed
qed

lemma collect_invariant:
  "dsInitRun_collect N s rds = Ok (s', rest) \<Longrightarrow> I s \<Longrightarrow>
   (\<And>rd t t'. I t \<Longrightarrow> anchorsCount t < N \<Longrightarrow> dsInitRun_event N rd t = Ok t' \<Longrightarrow> I t') \<Longrightarrow> I s'"
proof (induction N s rds rule: dsInitRun_collect.induct)
  case (1 N s rds)
  show ?case
  proof (cases "anchorsCount s < N")
    case False
    with "1.prems" show ?thesis by (simp add: dsInitRun_collect.simps [of N s])
  next
    case True
    from "1.prems"(1) True obtain rd rest' t where p: "poll_rx rds = Some (rd, rest')"
      and e: "dsInitRun_event N rd s = Ok t"
      and c: "dsInitRun_collect N t rest' = Ok (s', rest)"
      by (rule collect_step)
    have it: "I t" using "1.prems"(2,3) True e by blast
    show ?thesis
    proof (rule "1.IH" [OF True p refl e c it])
      fix rd t t'
      assume "I t" "anchorsCount t < N" "dsInitRun_event N rd t = Ok t'"
      then show "I t'" by (rule "1.prems"(3))
    qed
  qed
qed

text \<open>
  In a run of the response loop without a store outside the table, the loop is left only
  with \<open>anchorsCount = N\<close>.
\<close>

lemma collect_count:
  assumes "dsInitRun_collect N s rds = Ok (s', rest)" "anchorsCount s \<le> N"
  shows "anchorsCount s' = N"
proof -
  have "anchorsCount s' \<le> N"
  proof (rule collect_invariant [OF assms(1), where I = "\<lambda>t::tag_state. anchorsCount t \<le> N"])
    show "anchorsCount s \<le> N" by (rule assms(2))
  next
    fix rd and t t' :: tag_state
    assume "anchorsCount t < N" and "dsInitRun_event N rd t = Ok t'"
    then show "anchorsCount t' \<le> N"
      using event_Ok(6) [of N rd t t'] by linarith
  qed
  with collect_leaves [OF assms(1)] show ?thesis by simp
qed

lemma collect_keeps:
  assumes "dsInitRun_collect N s rds = Ok (s', rest)"
  shows "tagFirstMsg s' = tagFirstMsg s" "tagFinalMsg s' = tagFinalMsg s"
    "exchangeSeqCount s' = exchangeSeqCount s"
    "length (anchorsTimestamps s') = length (anchorsTimestamps s)"
    "tx_frames (calls s') = tx_frames (calls s)"
  by (rule collect_invariant [OF assms]; simp add: event_Ok)+

lemma send_fields:
  "exchangeSeqCount (dsInitRun_send N st s) = exchangeSeqCount s + 1"
  "tagTxTimestamp1 (dsInitRun_send N st s) = getTxTimestampU64 st"
  "tagTxTimestamp2 (dsInitRun_send N st s) = tagTxTimestamp2_of
     (tagSendDelayTime_of (anchorsTimestamps s ! (N - 1)) RESP_RX_TO_FINAL_TX_DLY_UUS) TX_ANT_DLY"
  "anchorsTimestamps (dsInitRun_send N st s) = anchorsTimestamps s"
  "anchorsCount (dsInitRun_send N st s) = anchorsCount s"
  "tagFirstMsg (dsInitRun_send N st s) = tagFirstMsg s"
  "tagFinalMsg (dsInitRun_send N st s) =
     (finalMsgSetRxTs N (anchorsTimestamps s)
        (finalMsgSetTs (finalMsgSetTs (tagFinalMsg s) FINAL_MSG_TX_1_IDX (getTxTimestampU64 st))
           FINAL_MSG_TX_2_IDX (tagTxTimestamp2_of
     (tagSendDelayTime_of (anchorsTimestamps s ! (N - 1)) RESP_RX_TO_FINAL_TX_DLY_UUS) TX_ANT_DLY))
        FINAL_MSG_RX_1_IDX)[EX_SEQ_COUNT_IDX := exchangeSeqCount s + 1]"
  "tx_frames (calls (dsInitRun_send N st s))
     = tx_frames (calls s) @ [tagFinalMsg (dsInitRun_send N st s)]"
  by (simp_all add: dsInitRun_send_def hw_def Let_def tx_frames_append)

lemma send_calls:
  "calls (dsInitRun_send N st s)
   = calls s @ [Setdelayedtrxtime (tagSendDelayTime_of (anchorsTimestamps s ! (N - 1)) RESP_RX_TO_FINAL_TX_DLY_UUS),
        Writetxdata (length (tagFinalMsg (dsInitRun_send N st s))) (tagFinalMsg (dsInitRun_send N st s)),
        Writetxfctrl (length (tagFinalMsg (dsInitRun_send N st s))) 0 1,
        Starttx {DWT_START_TX_DELAYED}]"
  by (simp add: dsInitRun_send_def hw_def Let_def)

lemma final_Ok:
  assumes "dsInitRun_final N st r txr s = Ok (v, s')"
  shows "v = 1"
    and "exchangeSeqCount s' = exchangeSeqCount (dsInitRun_send N st s)"
    and "tagTxTimestamp1 s' = tagTxTimestamp1 (dsInitRun_send N st s)"
    and "tagTxTimestamp2 s' = tagTxTimestamp2 (dsInitRun_send N st s)"
    and "anchorsTimestamps s' = anchorsTimestamps (dsInitRun_send N st s)"
    and "anchorsCount s' = anchorsCount (dsInitRun_send N st s)"
    and "tagFirstMsg s' = tagFirstMsg (dsInitRun_send N st s)"
    and "tagFinalMsg s' = tagFinalMsg (dsInitRun_send N st s)"
    and "tx_frames (calls s') = tx_frames (calls (dsInitRun_send N st s))"
proof -
  from assms have "s' = dsInitRun_send N st s
      \<or> s' = hw [Write32bitreg {SYS_STATUS_TXFRS}] (dsInitRun_send N st s)"
    and v: "v = 1"
    by (auto simp add: dsInitRun_final_def Let_def split: if_splits option.splits)
  then show "v = 1"
    and "exchangeSeqCount s' = exchangeSeqCount (dsInitRun_send N st s)"
    and "tagTxTimestamp1 s' = tagTxTimestamp1 (dsInitRun_send N st s)"
    and "tagTxTimestamp2 s' = tagTxTimestamp2 (dsInitRun_send N st s)"
    and "anchorsTimestamps s' = anchorsTimestamps (dsInitRun_send N st s)"
    and "anchorsCount s' = anchorsCount (dsInitRun_send N st s)"
    and "tagFirstMsg s' = tagFirstMsg (dsInitRun_send N st s)"
    and "tagFinalMsg s' = tagFinalMsg (dsInitRun_send N st s)"
    and "tx_frames (calls s') = tx_frames (calls (dsInitRun_send N st s))"
    by (auto simp add: hw_def tx_frames_append)
qed

lemma final_calls:
  assumes "dsInitRun_final N st r txr s = Ok (v, s')"
  shows "calls s' = calls (dsInitRun_send N st s)
           @ (if r = DWT_SUCCESS then [Write32bitreg {SYS_STATUS_TXFRS}] else [])"
  using assms
  by (auto simp add: dsInitRun_final_def Let_def hw_def split: if_splits option.splits)

lemma dsInitRun_Ok:
  assumes "dsInitRun N inp s = Ok (r, s')"
  obtains s1 rest where "dsInitRun_collect N (dsInitRun_start N s) (rx_reads inp) = Ok (s1, rest)"
    and "dsInitRun_final N (tx_stamp inp) (tx_status inp) (tx_reads inp) s1 = Ok (r, s')"
  using assms
  by (cases "dsInitRun_collect N (dsInitRun_start N s) (rx_reads inp)") (auto simp add: dsInitRun_def)

lemma round_frames:
  assumes "dsInitRun N inp s = Ok (r, s')"
  shows "tx_frames (calls s')
         = tx_frames (calls s) @ [(tagFirstMsg s)[EX_SEQ_COUNT_IDX := exchangeSeqCount s], tagFinalMsg s']"
    and "exchangeSeqCount s' = exchangeSeqCount s + 1"
    and "length (tagFinalMsg s') = length (tagFinalMsg s)"
    and "tagFinalMsg s' ! EX_SEQ_COUNT_IDX
           = ((tagFinalMsg s')[EX_SEQ_COUNT_IDX := exchangeSeqCount s + 1]) ! EX_SEQ_COUNT_IDX"
    and "length (tagFirstMsg s') = length (tagFirstMsg s)"
proof -
  from assms obtain s1 rest
    where c: "dsInitRun_collect N (dsInitRun_start N s) (rx_reads inp) = Ok (s1, rest)"
      and f: "dsInitRun_final N (tx_stamp inp) (tx_status inp) (tx_reads inp) s1 = Ok (r, s')"
    by (rule dsInitRun_Ok)
  note k = collect_keeps [OF c] start_fields [of N s]
  note g = final_Ok [OF f] send_fields [of N "tx_stamp inp" s1]
  show "tx_frames (calls s')
         = tx_frames (calls s) @ [(tagFirstMsg s)[EX_SEQ_COUNT_IDX := exchangeSeqCount s], tagFinalMsg s']"
    using k g by simp
  show "exchangeSeqCount s' = exchangeSeqCount s + 1" using k g by simp
  show "length (tagFinalMsg s') = length (tagFinalMsg s)" using k g by simp
  show "tagFinalMsg s' ! EX_SEQ_COUNT_IDX
           = ((tagFinalMsg s')[EX_SEQ_COUNT_IDX := exchangeSeqCount s + 1]) ! EX_SEQ_COUNT_IDX"
    using k g by simp
  show "length (tagFirstMsg s') = length (tagFirstMsg s)" using k g by simp
qed


section \<open>The response loop\<close>

text \<open>
  C1, at the anchor id 0. The guard of line 170 tests only \<open>anchorID > ANCHORS_TOTAL_COUNT\<close>.
  For every anchor count and every state, the response with the id 0 is not rejected: the
  branch of line 173 is taken and the store \<open>anchorsTimestamps[-1] = tagRxTimestamp1\<close> is
  executed, outside the table. For the other ids: an id above \<open>N\<close> is rejected and leaves
  the response counter as it is, an id from 1 to \<open>N\<close> that has its place in the table is
  counted.
\<close>

theorem anchor_id_zero_is_stored:
  "dsInitRun_event N (anchor_response 0 st) s = Undefined (- 1) (getRxTimestampU64 st)
   \<and> map_outcome anchorsCount (dsInitRun_event N (anchor_response a st) s)
       = (if N < unat a then Ok (anchorsCount s)
          else if a = 0 \<or> length (anchorsTimestamps s) < unat a
               then Undefined (uint a - 1) (getRxTimestampU64 st)
          else Ok (Suc (anchorsCount s)))"
proof -
  have u: "uint a > int N \<longleftrightarrow> N < unat a"
    unfolding uint_nat by linarith
  have r: "0 \<le> uint a - 1 \<and> uint a - 1 < int (length (anchorsTimestamps s))
           \<longleftrightarrow> \<not> (a = 0 \<or> length (anchorsTimestamps s) < unat a)"
  proof -
    have "a = 0 \<longleftrightarrow> unat a = 0" by (simp add: unsigned_eq_0_iff)
    then show ?thesis unfolding uint_nat by linarith
  qed
  have "map_outcome anchorsCount (dsInitRun_event N (anchor_response a st) s)
       = (if uint a > int N then Ok (anchorsCount s)
          else if 0 \<le> uint a - 1 \<and> uint a - 1 < int (length (anchorsTimestamps s))
               then Ok (Suc (anchorsCount s))
          else Undefined (uint a - 1) (getRxTimestampU64 st))"
    by (simp add: event_defs anchor_response_def anchorMsg_def idx_defs)
  then have c: "map_outcome anchorsCount (dsInitRun_event N (anchor_response a st) s)
       = (if N < unat a then Ok (anchorsCount s)
          else if a = 0 \<or> length (anchorsTimestamps s) < unat a
               then Undefined (uint a - 1) (getRxTimestampU64 st)
          else Ok (Suc (anchorsCount s)))"
    unfolding u r by simp
  have z: "dsInitRun_event N (anchor_response 0 st) s = Undefined (- 1) (getRxTimestampU64 st)"
    by (simp add: event_defs anchor_response_def anchorMsg_def idx_defs)
  from z c show ?thesis by (intro conjI)
qed

text \<open>
  C3, at a receive timeout and at a receive error. The status test of line 141 has no
  \<open>else\<close>: when the status shows a timeout or an error and no good frame, the pass through
  the loop only stores the status in \<open>statusReg\<close>. No driver call is made, so no status
  flag is cleared and the receiver is not reset.
\<close>

theorem rx_fault_is_ignored:
  "dsInitRun_event N rx_timeout s = Ok (s\<lparr>statusReg := {SYS_STATUS_ALL_RX_TO}\<rparr>)
   \<and> dsInitRun_event N rx_error s = Ok (s\<lparr>statusReg := {SYS_STATUS_ALL_RX_ERR}\<rparr>)
   \<and> map_outcome calls (dsInitRun_event N rx_timeout s) = Ok (calls s)
   \<and> map_outcome calls (dsInitRun_event N rx_error s) = Ok (calls s)"
  by (simp add: dsInitRun_event_def rx_timeout_def rx_error_def)

text \<open>
  C9, at a response with the anchor id 0. Such a response, whether it comes first in the
  round or after two counted responses and a timeout, makes the body of the response loop
  store outside the table. From there on the behaviour is undefined, also that of the
  loop test \<open>anchorsCount < ANCHORS_TOTAL_COUNT\<close>: the counter lies just before the table.
  Whatever is read afterwards, the loop and the round end as undefined.
\<close>

theorem response_loop_undefined_on_anchor_id_zero:
  "dsInitRun_collect ANCHORS_TOTAL_COUNT (dsInitRun_start ANCHORS_TOTAL_COUNT s)
       (anchor_response 0 st # rds)
     = Undefined (- 1) (getRxTimestampU64 st)
   \<and> dsInitRun ANCHORS_TOTAL_COUNT (inp\<lparr>rx_reads := anchor_response 0 st # rds\<rparr>) s
     = Undefined (- 1) (getRxTimestampU64 st)
   \<and> dsInitRun_collect ANCHORS_TOTAL_COUNT
       (dsInitRun_start ANCHORS_TOTAL_COUNT (init_state ANCHORS_TOTAL_COUNT))
       (anchor_response 1 [0, 0, 0, 1, 0] # anchor_response 2 [0, 0, 0, 2, 0] # rx_timeout
          # anchor_response 0 st # rds)
     = Undefined (- 1) (getRxTimestampU64 st)"
proof -
  have e: "dsInitRun_event 3 (anchor_response 0 st) t = Undefined (- 1) (getRxTimestampU64 st)" for t
    by (simp add: event_defs anchor_response_def anchorMsg_def idx_defs)
  have p: "poll_rx (anchor_response 0 st # more) = Some (anchor_response 0 st, more)" for more
    by (simp add: anchor_response_def)
  have c: "dsInitRun_collect 3 t (anchor_response 0 st # more) = Undefined (- 1) (getRxTimestampU64 st)"
    if "anchorsCount t < 3" for t more
    using that by (subst dsInitRun_collect.simps) (simp add: p e del: poll_rx.simps)
  have z: "anchorsCount (dsInitRun_start 3 s) < 3"
    by (simp add: dsInitRun_start_def hw_def Let_def)
  have one: "dsInitRun_collect 3 (dsInitRun_start 3 s) (anchor_response 0 st # rds)
     = Undefined (- 1) (getRxTimestampU64 st)"
    using c [OF z] .
  have two: "dsInitRun 3 (inp\<lparr>rx_reads := anchor_response 0 st # rds\<rparr>) s
     = Undefined (- 1) (getRxTimestampU64 st)"
    by (simp add: dsInitRun_def one)
  have three: "dsInitRun_collect 3 (dsInitRun_start 3 (init_state 3))
       (anchor_response 1 [0, 0, 0, 1, 0] # anchor_response 2 [0, 0, 0, 2, 0] # rx_timeout
          # anchor_response 0 st # rds)
     = Undefined (- 1) (getRxTimestampU64 st)"
    by (simp add: run_defs replicate_3)
  from one two three show ?thesis
    unfolding ANCHORS_TOTAL_COUNT_def by (intro conjI)
qed




section \<open>The final message\<close>

text \<open>
  C4, when the anchors answer in the order 3, 1, 2. The delayed transmission time is
  computed from \<open>anchorsTimestamps[ANCHORS_TOTAL_COUNT - 1]\<close>, the entry of anchor 3, which
  was received first (\<open>0x1000000\<close>), and not from the response received last
  (\<open>0x3000000\<close>, still in \<open>tagRxTimestamp1\<close>): the time given to
  \<open>dwt_setdelayedtrxtime\<close> is 1038336, not 1169408.
\<close>

theorem delay_uses_last_table_slot:
  "map_outcome (tagRxTimestamp1 \<circ> snd)
       (dsInitRun ANCHORS_TOTAL_COUNT round_3_1_2 (init_state ANCHORS_TOTAL_COUNT)) = Ok 0x3000000
   \<and> map_outcome (anchorsTimestamps \<circ> snd)
       (dsInitRun ANCHORS_TOTAL_COUNT round_3_1_2 (init_state ANCHORS_TOTAL_COUNT))
     = Ok [0x2000000, 0x3000000, 0x1000000]
   \<and> map_outcome (programmed_delays \<circ> calls \<circ> snd)
       (dsInitRun ANCHORS_TOTAL_COUNT round_3_1_2 (init_state ANCHORS_TOTAL_COUNT))
     = Ok [tagSendDelayTime_of 0x1000000 RESP_RX_TO_FINAL_TX_DLY_UUS]
   \<and> tagSendDelayTime_of 0x1000000 RESP_RX_TO_FINAL_TX_DLY_UUS = 1038336
   \<and> tagSendDelayTime_of 0x3000000 RESP_RX_TO_FINAL_TX_DLY_UUS = 1169408"
  by (simp add: run_defs round_3_1_2_def replicate_3)

text \<open>
  C2, as the program has it. For every anchor count \<open>N\<close>, with a final message of
  \<open>20 + 4N\<close> bytes (32 bytes for the 3 anchors of the source), the frame handed to the
  transceiver last in a round is: the ten bytes of the common header with the new sequence
  number, the low 32 bits of the poll-TX time-stamp at bytes 10 to 13, the low 32 bits of
  the final-TX time-stamp at bytes 14 to 17, the \<open>N\<close> response time-stamps, four bytes
  each, in the order of the table from byte 18 on, and the two bytes left for the
  checksum. All are little-endian.
\<close>

theorem final_frame_layout:
  assumes "length (tagFinalMsg s) = 20 + 4 * N" and "dsInitRun N inp s = Ok (r, s')"
  shows "tagFinalMsg s'
           = (take ALL_MSG_COMMON_LEN (tagFinalMsg s))[EX_SEQ_COUNT_IDX := exchangeSeqCount s + 1]
             @ le32 (tagTxTimestamp1 s') @ le32 (tagTxTimestamp2 s')
             @ concat (map le32 (anchorsTimestamps s'))
             @ drop (18 + 4 * N) (tagFinalMsg s)
         \<and> length (anchorsTimestamps s') = N
         \<and> length (drop (18 + 4 * N) (tagFinalMsg s)) = 2
         \<and> tagTxTimestamp1 s' = getTxTimestampU64 (tx_stamp inp)
         \<and> last (tx_frames (calls s')) = tagFinalMsg s'"
proof -
  from assms(2) obtain s1 rest
    where c: "dsInitRun_collect N (dsInitRun_start N s) (rx_reads inp) = Ok (s1, rest)"
      and f: "dsInitRun_final N (tx_stamp inp) (tx_status inp) (tx_reads inp) s1 = Ok (r, s')"
    by (rule dsInitRun_Ok)
  note k = collect_keeps [OF c] start_fields [of N s]
  have l1: "length (tagFinalMsg s1) = 20 + 4 * N" using k assms(1) by simp
  have t1: "length (anchorsTimestamps s1) = N" using k by simp
  have q1: "exchangeSeqCount s1 = exchangeSeqCount s" using k by simp
  note g = final_Ok [OF f] send_fields [of N "tx_stamp inp" s1]
  have "tagFinalMsg s'
        = (take 10 (tagFinalMsg s1))[2 := exchangeSeqCount s1 + 1]
          @ le32 (tagTxTimestamp1 s') @ le32 (tagTxTimestamp2 s')
          @ concat (map le32 (anchorsTimestamps s1)) @ drop (18 + 4 * N) (tagFinalMsg s1)"
    using final_frame_bytes [OF l1 t1] g by simp
  moreover have "tagFinalMsg s1 = tagFinalMsg s" using k by simp
  moreover have "anchorsTimestamps s' = anchorsTimestamps s1" using g by simp
  moreover have "tagTxTimestamp1 s' = getTxTimestampU64 (tx_stamp inp)" using g by simp
  moreover have "last (tx_frames (calls s')) = tagFinalMsg s'" using g by simp
  ultimately show ?thesis
    using t1 q1 assms(1) by (simp add: ALL_MSG_COMMON_LEN_def EX_SEQ_COUNT_IDX_def)
qed

theorem final_frame_layout_witness:
  "length (tagFinalMsg (init_state 3)) = 20 + 4 * 3
   \<and> (\<exists>r s'. dsInitRun 3 round_1_2_3 (init_state 3) = Ok (r, s')
        \<and> tagFinalMsg s' = [0x41, 0x88, 1, 0xCA, 0xDE, 0x57, 0x41, 0x56, 0x45, 0x23]
             @ le32 5 @ le32 (tagTxTimestamp2 s') @ le32 0x1000000 @ le32 0x2000000 @ le32 0x3000000 @ [0, 0])"
proof -
  have l: "length (tagFinalMsg (init_state 3)) = 20 + 4 * 3"
    by (simp add: init_state_def tagFinalMsg_init_def)
  have "\<exists>r s'. dsInitRun 3 round_1_2_3 (init_state 3) = Ok (r, s')
      \<and> anchorsTimestamps s' = [0x1000000, 0x2000000, 0x3000000] \<and> tagTxTimestamp1 s' = 5"
    by (simp add: run_defs round_1_2_3_def replicate_3)
  then obtain r s' where run: "dsInitRun 3 round_1_2_3 (init_state 3) = Ok (r, s')"
    and f: "anchorsTimestamps s' = [0x1000000, 0x2000000, 0x3000000]" "tagTxTimestamp1 s' = 5"
    by blast
  from final_frame_layout [OF l run]
  have "tagFinalMsg s' = [0x41, 0x88, 1, 0xCA, 0xDE, 0x57, 0x41, 0x56, 0x45, 0x23]
             @ le32 5 @ le32 (tagTxTimestamp2 s') @ le32 0x1000000 @ le32 0x2000000 @ le32 0x3000000 @ [0, 0]"
    unfolding f by (simp add: init_state_def tagFinalMsg_init_def idx_defs)
  with l run show ?thesis by blast
qed

text \<open>
  In the round where the anchors answer in the order 1, 2, 3, the final message has the
  final-TX time-stamp 299384884 at bytes 14 to 17, before the three response
  time-stamps, and not after them.
\<close>

theorem final_frame_layout_counterexample:
  "map_outcome (tagFinalMsg \<circ> snd) (dsInitRun ANCHORS_TOTAL_COUNT round_1_2_3 (init_state ANCHORS_TOTAL_COUNT))
     = Ok ([0x41, 0x88, 1, 0xCA, 0xDE, 0x57, 0x41, 0x56, 0x45, 0x23]
             @ le32 5 @ le32 299384884 @ le32 0x1000000 @ le32 0x2000000 @ le32 0x3000000 @ [0, 0])
   \<and> map_outcome (tagTxTimestamp1 \<circ> snd) (dsInitRun ANCHORS_TOTAL_COUNT round_1_2_3 (init_state ANCHORS_TOTAL_COUNT))
     = Ok 5
   \<and> map_outcome (tagTxTimestamp2 \<circ> snd) (dsInitRun ANCHORS_TOTAL_COUNT round_1_2_3 (init_state ANCHORS_TOTAL_COUNT))
     = Ok 299384884
   \<and> map_outcome (anchorsTimestamps \<circ> snd) (dsInitRun ANCHORS_TOTAL_COUNT round_1_2_3 (init_state ANCHORS_TOTAL_COUNT))
     = Ok [0x1000000, 0x2000000, 0x3000000]
   \<and> [0x41, 0x88, 1, 0xCA, 0xDE, 0x57, 0x41, 0x56, 0x45, 0x23]
         @ le32 5 @ le32 299384884 @ le32 0x1000000 @ le32 0x2000000 @ le32 0x3000000 @ [0, 0]
       \<noteq> [0x41, 0x88, 1, 0xCA, 0xDE, 0x57, 0x41, 0x56, 0x45, 0x23]
         @ le32 5 @ le32 0x1000000 @ le32 0x2000000 @ le32 0x3000000 @ le32 299384884 @ [0, 0]"
  by (simp add: run_defs round_1_2_3_def replicate_3 le32_def)

section \<open>The sequence number\<close>

text \<open>
  C10. In every round that returns, whatever the answer to the delayed \<open>dwt_starttx\<close>, the
  two frames handed to the transceiver are the poll, with the sequence number the round
  started with, and the final message, with that number plus one modulo 256. The final
  message already carries the new number when it is written to the transceiver, before
  \<open>dwt_starttx(DWT_START_TX_DELAYED)\<close>; the counter keeps the new number after the round,
  and the poll of the next round carries it.
\<close>

theorem sequence_number_advances:
  assumes "EX_SEQ_COUNT_IDX < length (tagFirstMsg s)" and "EX_SEQ_COUNT_IDX < length (tagFinalMsg s)"
    and "dsInitRun N inp s = Ok (r, s')"
  shows "(\<exists>poll final pre.
            tx_frames (calls s') = tx_frames (calls s) @ [poll, final]
            \<and> poll ! EX_SEQ_COUNT_IDX = exchangeSeqCount s
            \<and> final ! EX_SEQ_COUNT_IDX = exchangeSeqCount s + 1
            \<and> unat (final ! EX_SEQ_COUNT_IDX) = (unat (poll ! EX_SEQ_COUNT_IDX) + 1) mod 256
            \<and> calls s' = pre @ [Writetxdata (length final) final, Writetxfctrl (length final) 0 1,
                                 Starttx {DWT_START_TX_DELAYED}]
                               @ (if tx_status inp = DWT_SUCCESS then [Write32bitreg {SYS_STATUS_TXFRS}] else []))
         \<and> exchangeSeqCount s' = exchangeSeqCount s + 1
         \<and> (\<forall>inp2 r2 s2. dsInitRun N inp2 s' = Ok (r2, s2) \<longrightarrow>
               (\<exists>poll2 final2. tx_frames (calls s2) = tx_frames (calls s') @ [poll2, final2]
                  \<and> poll2 ! EX_SEQ_COUNT_IDX = exchangeSeqCount s + 1))"
proof -
  note a = round_frames [OF assms(3)]
  from assms(3) obtain s1 rest
    where c: "dsInitRun_collect N (dsInitRun_start N s) (rx_reads inp) = Ok (s1, rest)"
      and f: "dsInitRun_final N (tx_stamp inp) (tx_status inp) (tx_reads inp) s1 = Ok (r, s')"
    by (rule dsInitRun_Ok)
  define poll where "poll = (tagFirstMsg s)[EX_SEQ_COUNT_IDX := exchangeSeqCount s]"
  have p: "poll ! EX_SEQ_COUNT_IDX = exchangeSeqCount s"
    unfolding poll_def using assms(1) by simp
  have q: "tagFinalMsg s' ! EX_SEQ_COUNT_IDX = exchangeSeqCount s + 1"
    using a(3,4) assms(2) by simp
  have u: "unat (exchangeSeqCount s + 1) = (unat (exchangeSeqCount s) + 1) mod 256"
    by (simp add: unat_word_ariths)
  have t: "tagFinalMsg (dsInitRun_send N (tx_stamp inp) s1) = tagFinalMsg s'"
    using final_Ok [OF f] by simp
  have cs: "calls s' = (calls s1 @ [Setdelayedtrxtime
                (tagSendDelayTime_of (anchorsTimestamps s1 ! (N - 1)) RESP_RX_TO_FINAL_TX_DLY_UUS)])
              @ [Writetxdata (length (tagFinalMsg s')) (tagFinalMsg s'),
                 Writetxfctrl (length (tagFinalMsg s')) 0 1, Starttx {DWT_START_TX_DELAYED}]
              @ (if tx_status inp = DWT_SUCCESS then [Write32bitreg {SYS_STATUS_TXFRS}] else [])"
    using final_calls [OF f] send_calls [of N "tx_stamp inp" s1] t by simp
  have first: "\<exists>poll final pre.
            tx_frames (calls s') = tx_frames (calls s) @ [poll, final]
            \<and> poll ! EX_SEQ_COUNT_IDX = exchangeSeqCount s
            \<and> final ! EX_SEQ_COUNT_IDX = exchangeSeqCount s + 1
            \<and> unat (final ! EX_SEQ_COUNT_IDX) = (unat (poll ! EX_SEQ_COUNT_IDX) + 1) mod 256
            \<and> calls s' = pre @ [Writetxdata (length final) final, Writetxfctrl (length final) 0 1,
                                 Starttx {DWT_START_TX_DELAYED}]
                               @ (if tx_status inp = DWT_SUCCESS then [Write32bitreg {SYS_STATUS_TXFRS}] else [])"
    using a(1) [folded poll_def] p q u cs by metis
  have next_round: "\<exists>poll2 final2. tx_frames (calls s2) = tx_frames (calls s') @ [poll2, final2]
                  \<and> poll2 ! EX_SEQ_COUNT_IDX = exchangeSeqCount s + 1"
    if "dsInitRun N inp2 s' = Ok (r2, s2)" for inp2 r2 s2
  proof -
    note b = round_frames [OF that]
    have "((tagFirstMsg s')[EX_SEQ_COUNT_IDX := exchangeSeqCount s']) ! EX_SEQ_COUNT_IDX = exchangeSeqCount s + 1"
      using a(2,5) assms(1) by simp
    with b(1) show ?thesis by blast
  qed
  show ?thesis using first a(2) next_round by blast
qed

theorem sequence_number_advances_witness:
  "EX_SEQ_COUNT_IDX < length (tagFirstMsg (init_state 3))
   \<and> EX_SEQ_COUNT_IDX < length (tagFinalMsg (init_state 3))
   \<and> tx_status round_abandoned = DWT_ERROR
   \<and> exchangeSeqCount (init_state 3) = 0
   \<and> (\<exists>r s' r2 s2. dsInitRun 3 round_abandoned (init_state 3) = Ok (r, s')
         \<and> dsInitRun 3 round_1_2_3 s' = Ok (r2, s2)
         \<and> exchangeSeqCount s' = 1
         \<and> (\<exists>poll final. tx_frames (calls s') = [poll, final] \<and> poll ! 2 = 0 \<and> final ! 2 = 1)
         \<and> (\<exists>poll2 final2. tx_frames (calls s2) = tx_frames (calls s') @ [poll2, final2]
               \<and> poll2 ! 2 = 1))"
proof -
  have a: "EX_SEQ_COUNT_IDX < length (tagFirstMsg (init_state 3))"
    and b: "EX_SEQ_COUNT_IDX < length (tagFinalMsg (init_state 3))"
    and z: "exchangeSeqCount (init_state 3) = 0" "tx_frames (calls (init_state 3)) = []"
    by (simp_all add: init_state_def tagFirstMsg_init_def tagFinalMsg_init_def idx_defs)
  have e: "tx_status round_abandoned = DWT_ERROR"
    by (simp add: round_abandoned_def)
  have "\<exists>r s' r2 s2. dsInitRun 3 round_abandoned (init_state 3) = Ok (r, s')
      \<and> dsInitRun 3 round_1_2_3 s' = Ok (r2, s2)"
    by (simp add: run_defs round_abandoned_def round_1_2_3_def replicate_3)
  then obtain r s' r2 s2 where run: "dsInitRun 3 round_abandoned (init_state 3) = Ok (r, s')"
    and run2: "dsInitRun 3 round_1_2_3 s' = Ok (r2, s2)"
    by blast
  from sequence_number_advances [OF a b run]
  have "exchangeSeqCount s' = 1"
    and "\<exists>poll final. tx_frames (calls s') = [poll, final] \<and> poll ! 2 = 0 \<and> final ! 2 = 1"
    and "\<forall>inp2 r2 s2. dsInitRun 3 inp2 s' = Ok (r2, s2) \<longrightarrow>
               (\<exists>poll2 final2. tx_frames (calls s2) = tx_frames (calls s') @ [poll2, final2]
                  \<and> poll2 ! 2 = 1)"
    unfolding z EX_SEQ_COUNT_IDX_def by auto
  with a b z e run run2 show ?thesis by blast
qed

end
